theory Spec2Isabelle
  imports Complex_Main "HOL-Library.Char_ord" "HOL-Library.List_Lexorder"
begin

section \<open>Strings as the client scripts use them\<close>

text \<open>
  The sources are browser scripts of a Frappe application. Strings are modelled as
  \<^typ>\<open>string\<close> (lists of bytes); the case conversions below are the ASCII part of
  JavaScript's \<^verbatim>\<open>toLowerCase\<close> and \<^verbatim>\<open>toUpperCase\<close>, every other byte is left as it is.
\<close>

definition lower_char :: "char \<Rightarrow> char" where
  "lower_char c =
     (case map_of (zip ''ABCDEFGHIJKLMNOPQRSTUVWXYZ'' ''abcdefghijklmnopqrstuvwxyz'') c of
        Some l \<Rightarrow> l
      | None \<Rightarrow> c)"


definition toLowerCase :: "string \<Rightarrow> string" where
  "toLowerCase s = map lower_char s"

text \<open>\<^verbatim>\<open>s.includes(sub)\<close>: \<^verbatim>\<open>sub\<close> occurs in \<^verbatim>\<open>s\<close> at some position.\<close>

fun starts_with :: "string \<Rightarrow> string \<Rightarrow> bool" where
  "starts_with s [] = True"
| "starts_with [] (p # ps) = False"
| "starts_with (c # cs) (p # ps) = (c = p \<and> starts_with cs ps)"

fun includes_str :: "string \<Rightarrow> string \<Rightarrow> bool" where
  "includes_str [] sub = (sub = [])"
| "includes_str (c # cs) sub = (starts_with (c # cs) sub \<or> includes_str cs sub)"

text \<open>A natural number interpolated into a template literal: its decimal digits.\<close>

definition digit_char :: "nat \<Rightarrow> char" where
  "digit_char d = ''0123456789'' ! d"

fun show_nat :: "nat \<Rightarrow> string" where
  "show_nat n =
     (if n < 10 then [digit_char n] else show_nat (n div 10) @ [digit_char (n mod 10)])"

declare show_nat.simps [simp del]



section \<open>The request form: \<^verbatim>\<open>doctype_creation_request.js\<close>\<close>

text \<open>
  \<^verbatim>\<open>frm.doc.field_analysis\<close> is a JSON text. What the scripts read of it is modelled by
  a record; the text itself is either falsy (absent or empty), not parseable
  (\<^verbatim>\<open>JSON.parse\<close> throws and the script catches), or a parsed object. The \<^verbatim>\<open>fields\<close>
  object is an association list in key order (\<^verbatim>\<open>Object.keys\<close>), \<open>None\<close> when the
  property is missing.
\<close>

record field_info =
  original_name :: string
  clean_name :: string
  suggested_type :: string
  sample_values :: "string list"

record analysis =
  analysis_fields :: "(string \<times> field_info) list option"

datatype analysis_text = NoText | BadJson | Json analysis

record doc =
  name :: string
  status :: string
  created_doctype :: string
  field_analysis :: analysis_text

text \<open>
  The form: its document, the custom buttons added so far (label, group) and the titles
  of the dashboard sections. The page's \<^verbatim>\<open>window\<close> carries the flag
  \<^verbatim>\<open>migration_realtime_initialized\<close> (\<^verbatim>\<open>undefined\<close> is \<open>False\<close>) and the handlers
  registered with \<^verbatim>\<open>frappe.realtime.on\<close>, by event name, in registration order.
  Button labels are the arguments of the translation function \<^verbatim>\<open>__\<close>, untranslated.
\<close>

record form =
  doc :: doc
  custom_buttons :: "(string \<times> string) list"
  dashboard_sections :: "string list"

record window =
  migration_realtime_initialized :: bool
  realtime_handlers :: "string list"

definition realtime_events :: "string list" where
  "realtime_events =
     [''doctype_request_status_update'', ''doctype_processing_completed'',
      ''doctype_request_approved'']"

definition setup_realtime_listeners :: "window \<Rightarrow> window" where
  "setup_realtime_listeners w = w\<lparr>realtime_handlers := realtime_handlers w @ realtime_events\<rparr>"

text \<open>
  \<^verbatim>\<open>show_field_analysis\<close> adds the section \<^verbatim>\<open>Field Analysis\<close> when the text parses and
  has at least one field; otherwise it returns early, or logs the parse error.
\<close>

definition show_field_analysis :: "form \<Rightarrow> form" where
  "show_field_analysis frm =
     (case field_analysis (doc frm) of
        NoText \<Rightarrow> frm
      | BadJson \<Rightarrow> frm
      | Json a \<Rightarrow>
          (case analysis_fields a of
             None \<Rightarrow> frm
           | Some [] \<Rightarrow> frm
           | Some (f # fs) \<Rightarrow>
               frm\<lparr>dashboard_sections := dashboard_sections frm @ [''Field Analysis'']\<rparr>))"

definition pending_buttons :: "(string \<times> string) list" where
  "pending_buttons =
     [(''Approve'', ''Actions''), (''Redirect to Existing'', ''Actions''),
      (''Reject'', ''Actions'')]"

definition completed_buttons :: "(string \<times> string) list" where
  "completed_buttons = [(''View Records'', ''View''), (''Edit DocType'', ''View'')]"

definition refresh :: "form \<Rightarrow> window \<Rightarrow> form \<times> window" where
  "refresh frm w =
     (let b1 = (if status (doc frm) = ''Pending'' then pending_buttons else []);
          b2 = (if status (doc frm) = ''Completed'' \<and> created_doctype (doc frm) \<noteq> []
                then completed_buttons else []);
          b3 = [(''All Created DocTypes'', ''View'')];
          frm1 = frm\<lparr>custom_buttons := custom_buttons frm @ b1 @ b2 @ b3\<rparr>;
          frm2 = (if field_analysis (doc frm) \<noteq> NoText then show_field_analysis frm1 else frm1);
          w' = (if \<not> migration_realtime_initialized w
                then (setup_realtime_listeners w)\<lparr>migration_realtime_initialized := True\<rparr>
                else w)
      in (frm2, w'))"

text \<open>A sequence of refresh events in one page session, each on the form then open.\<close>

fun refreshes :: "form list \<Rightarrow> window \<Rightarrow> window" where
  "refreshes [] w = w"
| "refreshes (frm # frms) w = refreshes frms (snd (refresh frm w))"


subsection \<open>The similarity suggestions of the redirect dialog\<close>

text \<open>
  A suggestion as the server sends it. The numbers are interpolated into the markup, so
  they are modelled as naturals and printed in decimal. Runs of white space between
  tags of the template literals (line breaks and indentation, which HTML collapses) are
  written as one space; the emoji of the heading is given by its UTF-8 bytes.
\<close>

record suggestion =
  doctype :: string
  similarity :: nat
  matching_fields :: nat
  csv_fields :: nat

definition suggestions_header :: string where
  \<open>suggestions_header =
     ''<div class="alert alert-info"> <strong>'' @ [CHR 0xF0, CHR 0x9F, CHR 0x8E, CHR 0xAF] @
     '' Similar DocTypes Found:</strong><br> Based on your CSV structure, these DocTypes might be a good match: <ul class="list-unstyled mt-2">''\<close>

definition suggestion_item :: "suggestion \<Rightarrow> string" where
  \<open>suggestion_item s =
     ''<li class="mt-1"> <strong>'' @ doctype s @ ''</strong> <span class="badge badge-success">'' @
     show_nat (similarity s) @ ''% match</span> <small class="text-muted">('' @
     show_nat (matching_fields s) @ ''/'' @ show_nat (csv_fields s) @ '' fields)</small> </li>''\<close>

text \<open>
  \<^verbatim>\<open>show_similarity_suggestions(dialog, suggestions)\<close>: the second argument of the model
  is the markup of the dialog's \<^verbatim>\<open>doctype_list\<close> wrapper, the result is the wrapper
  after the call (\<^verbatim>\<open>prepend\<close>). The \<^verbatim>\<open>forEach\<close> loop is the fold.
\<close>

definition show_similarity_suggestions :: "string \<Rightarrow> suggestion list \<Rightarrow> string" where
  "show_similarity_suggestions wrapper suggestions =
     (if length suggestions = 0 then wrapper
      else
        let html = foldl (\<lambda>html s. html @ suggestion_item s) suggestions_header (take 3 suggestions);
            html' = html @ ''</ul></div>''
        in html' @ wrapper)"


section \<open>The approval dialog with field mapping\<close>
















section \<open>The Similarity Matcher\<close>

text \<open>
  Modelled from the spec: the ranking itself runs on the server
  (\<^verbatim>\<open>suggest_similar_doctypes\<close>), which is not among the sources; the client only prints
  the \<^verbatim>\<open>similarity\<close>, \<^verbatim>\<open>matching_fields\<close> and \<^verbatim>\<open>csv_fields\<close> it receives. The
  definitions follow section 4.3 of the specification: the score of one existing schema
  is \<^verbatim>\<open>100 * |proposal_fields \<inter> existing_fields| / |proposal_fields|\<close>, integer-rounded
  (to the nearest integer, a half upwards: the integer form of \<^term>\<open>round\<close>);
  schemas of score 0 are left out; the result is in descending order of the score, ties
  in ascending order of the schema name.
\<close>

record similarity_result =
  existing_schema_name :: string
  similarity_percentage :: nat
  matching_field_count :: nat
  total_proposal_field_count :: nat

definition round_div :: "nat \<Rightarrow> nat \<Rightarrow> nat" where
  "round_div a b = (2 * a + b) div (2 * b)"

text \<open>
  Modelled from the spec: the score of one existing schema, section 4.3. For an empty
  proposal the division by zero of the model yields 0; the specification says nothing
  about that case and no property below uses it.
\<close>

definition similarity_score :: "string set \<Rightarrow> string set \<Rightarrow> nat" where
  "similarity_score proposal_fields existing_fields =
     round_div (100 * card (proposal_fields \<inter> existing_fields)) (card proposal_fields)"

definition match_result :: "string set \<Rightarrow> string \<times> string set \<Rightarrow> similarity_result" where
  "match_result proposal_fields schema =
     \<lparr>existing_schema_name = fst schema,
      similarity_percentage = similarity_score proposal_fields (snd schema),
      matching_field_count = card (proposal_fields \<inter> snd schema),
      total_proposal_field_count = card proposal_fields\<rparr>"

definition ranks_before :: "similarity_result \<Rightarrow> similarity_result \<Rightarrow> bool" where
  "ranks_before r1 r2 =
     (similarity_percentage r2 < similarity_percentage r1
      \<or> (similarity_percentage r1 = similarity_percentage r2
          \<and> existing_schema_name r1 \<le> existing_schema_name r2))"

fun insert_ranked :: "similarity_result \<Rightarrow> similarity_result list \<Rightarrow> similarity_result list" where
  "insert_ranked r [] = [r]"
| "insert_ranked r (x # xs) =
     (if ranks_before r x then r # x # xs else x # insert_ranked r xs)"

text \<open>
  Modelled from the spec: \<^verbatim>\<open>rank(proposal_fields, existing_schemas)\<close> of section 4.3, an
  insertion sort of the schemas of non-zero score.
\<close>

definition rank :: "string set \<Rightarrow> (string \<times> string set) list \<Rightarrow> similarity_result list" where
  "rank proposal_fields existing_schemas =
     foldr insert_ranked
       (filter (\<lambda>r. similarity_percentage r \<noteq> 0)
          (map (match_result proposal_fields) existing_schemas)) []"


section \<open>Clean field names\<close>

text \<open>
  Modelled from the spec: the clean names of an analysis are computed on the server,
  which is not among the sources (the form prints the \<^verbatim>\<open>clean_name\<close> it receives). The
  definitions follow section 4.1 of the specification: lowercase, replace every run of
  non-alphanumeric characters with a single underscore, strip leading and trailing
  underscores, \<^verbatim>\<open>field\<close> if nothing is left; on collision append \<^verbatim>\<open>_2\<close>, \<^verbatim>\<open>_3\<close>, ... in
  column order. A collision is a name already given to an earlier column of the same
  analysis, and the suffix is the first of \<^verbatim>\<open>_2\<close>, \<^verbatim>\<open>_3\<close>, ... that gives a name not yet
  taken (the data model requires the clean names of one analysis to be unique).
\<close>

definition is_alnum :: "char \<Rightarrow> bool" where
  "is_alnum c = (c \<in> set ''abcdefghijklmnopqrstuvwxyz0123456789'')"

function replace_runs :: "string \<Rightarrow> string" where
  "replace_runs [] = []"
| "replace_runs (c # cs) =
     (if is_alnum c then c # replace_runs cs
      else CHR ''_'' # replace_runs (dropWhile (\<lambda>d. \<not> is_alnum d) cs))"
  by pat_completeness auto
termination
  by (relation "measure length") (auto simp: le_imp_less_Suc length_dropWhile_le)

definition strip_underscores :: "string \<Rightarrow> string" where
  "strip_underscores s =
     rev (dropWhile (\<lambda>c. c = CHR ''_'') (rev (dropWhile (\<lambda>c. c = CHR ''_'') s)))"

text \<open>Modelled from the spec: the derivation of one clean name, before collisions.\<close>

definition base_name :: "string \<Rightarrow> string" where
  "base_name column =
     (let s = strip_underscores (replace_runs (toLowerCase column))
      in if s = [] then ''field'' else s)"

definition suffixed :: "string \<Rightarrow> nat \<Rightarrow> string" where
  "suffixed base k = base @ ''_'' @ show_nat k"

text \<open>
  With \<open>n\<close> names taken, one of the \<open>n + 1\<close> candidates \<^verbatim>\<open>_2\<close> ... is free, so the search
  is bounded; the last branch is never reached (lemma \<open>fresh_name_fresh\<close> below).
\<close>

definition fresh_name :: "string list \<Rightarrow> string \<Rightarrow> string" where
  "fresh_name used base =
     (if base \<notin> set used then base
      else case find (\<lambda>c. c \<notin> set used) (map (suffixed base) [2 ..< length used + 3]) of
             Some c \<Rightarrow> c
           | None \<Rightarrow> base)"

text \<open>
  Modelled from the spec: the clean names of the columns of one analysis, in column
  order; \<open>used\<close> holds the names given so far.
\<close>

fun assign_names :: "string list \<Rightarrow> string list \<Rightarrow> string list" where
  "assign_names used [] = []"
| "assign_names used (column # columns) =
     (let n = fresh_name used (base_name column)
      in n # assign_names (used @ [n]) columns)"

definition clean_names :: "string list \<Rightarrow> string list" where
  "clean_names columns = assign_names [] columns"


section \<open>Tokens of a column name\<close>



section \<open>Properties of the request form\<close>

lemma refresh_window:
  "snd (refresh frm w) =
     (if migration_realtime_initialized w then w
      else (setup_realtime_listeners w)\<lparr>migration_realtime_initialized := True\<rparr>)"
  by (simp add: refresh_def Let_def)

lemma refresh_sets_flag: "migration_realtime_initialized (snd (refresh frm w))"
  by (simp add: refresh_window setup_realtime_listeners_def)

lemma refreshes_initialized:
  "migration_realtime_initialized w \<Longrightarrow> refreshes frms w = w"
  by (induction frms) (simp_all add: refresh_window)

lemma refreshes_Cons: "refreshes (frm # frms) w = snd (refresh frm w)"
  by (simp add: refreshes_initialized refresh_sets_flag)

text \<open>
  Claim C10. Registering the realtime listeners is idempotent across form refreshes of
  one page session. Whatever forms are refreshed and however often, the handlers after
  the sequence are the handlers before it, followed by the three events of
  \<^verbatim>\<open>setup_realtime_listeners\<close> exactly once when the flag was not yet set and at least
  one refresh ran, and by nothing otherwise; the flag is set after the first refresh,
  and every later sequence of refreshes leaves the window as it is.
\<close>

theorem refresh_registers_listeners_once:
  "realtime_handlers (refreshes frms w) =
     realtime_handlers w @
       (if migration_realtime_initialized w \<or> frms = [] then [] else realtime_events)
   \<and> migration_realtime_initialized (refreshes frms w) =
       (migration_realtime_initialized w \<or> frms \<noteq> [])
   \<and> refreshes frms (snd (refresh frm w)) = snd (refresh frm w)"
proof (intro conjI)
  show "refreshes frms (snd (refresh frm w)) = snd (refresh frm w)"
    by (rule refreshes_initialized) (rule refresh_sets_flag)
next
  show "realtime_handlers (refreshes frms w) =
     realtime_handlers w @
       (if migration_realtime_initialized w \<or> frms = [] then [] else realtime_events)"
  proof (cases frms)
    case Nil
    then show ?thesis by simp
  next
    case (Cons frm frms')
    show ?thesis
      unfolding Cons refreshes_Cons
      by (simp add: refresh_window setup_realtime_listeners_def)
  qed
next
  show "migration_realtime_initialized (refreshes frms w) =
       (migration_realtime_initialized w \<or> frms \<noteq> [])"
  proof (cases frms)
    case Nil
    then show ?thesis by simp
  next
    case (Cons frm frms')
    show ?thesis
      unfolding Cons refreshes_Cons
      by (simp add: refresh_sets_flag)
  qed
qed

theorem refresh_registers_listeners_once_witness:
  "realtime_handlers
     (refreshes
        [\<lparr>doc = \<lparr>name = ''REQ-1'', status = ''Pending'', created_doctype = [],
                 field_analysis = NoText\<rparr>, custom_buttons = [], dashboard_sections = []\<rparr>,
         \<lparr>doc = \<lparr>name = ''REQ-1'', status = ''Approved'', created_doctype = [],
                 field_analysis = NoText\<rparr>, custom_buttons = [], dashboard_sections = []\<rparr>,
         \<lparr>doc = \<lparr>name = ''REQ-2'', status = ''Completed'', created_doctype = ''Customer'',
                 field_analysis = BadJson\<rparr>, custom_buttons = [], dashboard_sections = []\<rparr>]
        \<lparr>migration_realtime_initialized = False, realtime_handlers = []\<rparr>)
   = [''doctype_request_status_update'', ''doctype_processing_completed'',
      ''doctype_request_approved'']"
  using refresh_registers_listeners_once
    [of "[\<lparr>doc = \<lparr>name = ''REQ-1'', status = ''Pending'', created_doctype = [],
                 field_analysis = NoText\<rparr>, custom_buttons = [], dashboard_sections = []\<rparr>,
         \<lparr>doc = \<lparr>name = ''REQ-1'', status = ''Approved'', created_doctype = [],
                 field_analysis = NoText\<rparr>, custom_buttons = [], dashboard_sections = []\<rparr>,
         \<lparr>doc = \<lparr>name = ''REQ-2'', status = ''Completed'', created_doctype = ''Customer'',
                 field_analysis = BadJson\<rparr>, custom_buttons = [], dashboard_sections = []\<rparr>]"
        "\<lparr>migration_realtime_initialized = False, realtime_handlers = []\<rparr>"]
  by (simp add: realtime_events_def)


section \<open>Properties of the similarity suggestions\<close>

lemma foldl_append_items:
  "foldl (\<lambda>html s. html @ f s) h xs = h @ concat (map f xs)"
  by (induction xs arbitrary: h) simp_all

text \<open>
  Claim C9. The redirect dialog shows at most the first three suggestions. The markup
  prepended to the list is the heading, the items of the first three suggestions in
  order, and the closing tags; the call on a list and the call on its first three
  elements give the same wrapper, so a fourth or later suggestion is never shown. Each
  item shows the similarity percentage (\<^verbatim>\<open>N% match\<close>) and the matching-field count out of
  the field count of the proposal (\<^verbatim>\<open>(M/N fields)\<close>). An empty list leaves the wrapper
  untouched.
\<close>

theorem suggestions_first_three:
  \<open>show_similarity_suggestions wrapper suggestions =
     (if suggestions = [] then wrapper
      else suggestions_header @ concat (map suggestion_item (take 3 suggestions)) @
           ''</ul></div>'' @ wrapper)
   \<and> show_similarity_suggestions wrapper suggestions =
       show_similarity_suggestions wrapper (take 3 suggestions)
   \<and> length (map suggestion_item (take 3 suggestions)) = min 3 (length suggestions)
   \<and> (\<exists>pre post. suggestion_item s = pre @ show_nat (similarity s) @ ''% match'' @ post)
   \<and> (\<exists>pre post. suggestion_item s =
         pre @ ''('' @ show_nat (matching_fields s) @ ''/'' @ show_nat (csv_fields s) @
         '' fields)'' @ post)\<close>
proof (intro conjI)
  show first: \<open>show_similarity_suggestions wrapper suggestions =
     (if suggestions = [] then wrapper
      else suggestions_header @ concat (map suggestion_item (take 3 suggestions)) @
           ''</ul></div>'' @ wrapper)\<close> for suggestions
    by (simp add: show_similarity_suggestions_def Let_def foldl_append_items)
  show \<open>show_similarity_suggestions wrapper suggestions =
       show_similarity_suggestions wrapper (take 3 suggestions)\<close>
    unfolding first by (cases suggestions) simp_all
  show \<open>length (map suggestion_item (take 3 suggestions)) = min 3 (length suggestions)\<close>
    by (simp add: min.commute)
  have \<open>suggestion_item s =
      (''<li class="mt-1"> <strong>'' @ doctype s @ ''</strong> <span class="badge badge-success">'') @
      show_nat (similarity s) @ ''% match'' @
      (''</span> <small class="text-muted">('' @ show_nat (matching_fields s) @ ''/'' @
       show_nat (csv_fields s) @ '' fields)</small> </li>'')\<close>
    by (simp add: suggestion_item_def)
  then show \<open>\<exists>pre post. suggestion_item s = pre @ show_nat (similarity s) @ ''% match'' @ post\<close>
    by blast
  have \<open>suggestion_item s =
      (''<li class="mt-1"> <strong>'' @ doctype s @ ''</strong> <span class="badge badge-success">'' @
       show_nat (similarity s) @ ''% match</span> <small class="text-muted">'') @
      ''('' @ show_nat (matching_fields s) @ ''/'' @ show_nat (csv_fields s) @ '' fields)'' @
      ''</small> </li>''\<close>
    by (simp add: suggestion_item_def)
  then show \<open>\<exists>pre post. suggestion_item s =
         pre @ ''('' @ show_nat (matching_fields s) @ ''/'' @ show_nat (csv_fields s) @
         '' fields)'' @ post\<close>
    by blast
qed

theorem suggestions_first_three_witness:
  \<open>show_similarity_suggestions ''<table></table>''
     [\<lparr>doctype = ''Customer'', similarity = 100, matching_fields = 3, csv_fields = 3\<rparr>,
      \<lparr>doctype = ''Contact'', similarity = 67, matching_fields = 2, csv_fields = 3\<rparr>,
      \<lparr>doctype = ''Lead'', similarity = 67, matching_fields = 2, csv_fields = 3\<rparr>,
      \<lparr>doctype = ''Supplier'', similarity = 33, matching_fields = 1, csv_fields = 3\<rparr>]
   = show_similarity_suggestions ''<table></table>''
     [\<lparr>doctype = ''Customer'', similarity = 100, matching_fields = 3, csv_fields = 3\<rparr>,
      \<lparr>doctype = ''Contact'', similarity = 67, matching_fields = 2, csv_fields = 3\<rparr>,
      \<lparr>doctype = ''Lead'', similarity = 67, matching_fields = 2, csv_fields = 3\<rparr>]\<close>
proof -
  have \<open>take 3
     [\<lparr>doctype = ''Customer'', similarity = 100, matching_fields = 3, csv_fields = 3\<rparr>,
      \<lparr>doctype = ''Contact'', similarity = 67, matching_fields = 2, csv_fields = 3\<rparr>,
      \<lparr>doctype = ''Lead'', similarity = 67, matching_fields = 2, csv_fields = 3\<rparr>,
      \<lparr>doctype = ''Supplier'', similarity = 33, matching_fields = 1, csv_fields = 3\<rparr>]
   = [\<lparr>doctype = ''Customer'', similarity = 100, matching_fields = 3, csv_fields = 3\<rparr>,
      \<lparr>doctype = ''Contact'', similarity = 67, matching_fields = 2, csv_fields = 3\<rparr>,
      \<lparr>doctype = ''Lead'', similarity = 67, matching_fields = 2, csv_fields = 3\<rparr>]\<close>
    by simp
  with suggestions_first_three
    [of \<open>''<table></table>''\<close>
        \<open>[\<lparr>doctype = ''Customer'', similarity = 100, matching_fields = 3, csv_fields = 3\<rparr>,
          \<lparr>doctype = ''Contact'', similarity = 67, matching_fields = 2, csv_fields = 3\<rparr>,
          \<lparr>doctype = ''Lead'', similarity = 67, matching_fields = 2, csv_fields = 3\<rparr>,
          \<lparr>doctype = ''Supplier'', similarity = 33, matching_fields = 1, csv_fields = 3\<rparr>]\<close>,
     THEN conjunct2, THEN conjunct1]
  show ?thesis by (simp only:)
qed


section \<open>Properties of the field mapping dialog\<close>

lemma starts_with_iff: "starts_with s p \<longleftrightarrow> (\<exists>t. s = p @ t)"
  by (induction s p rule: starts_with.induct) auto

lemma includes_str_iff: "includes_str s sub \<longleftrightarrow> (\<exists>p t. s = p @ sub @ t)"
proof (induction s)
  case Nil
  then show ?case by auto
next
  case (Cons c cs)
  show ?case
  proof
    assume "includes_str (c # cs) sub"
    then consider "starts_with (c # cs) sub" | "includes_str cs sub" by auto
    then show "\<exists>p t. c # cs = p @ sub @ t"
    proof cases
      case 1
      then obtain t where "c # cs = sub @ t" by (auto simp: starts_with_iff)
      then have "c # cs = [] @ sub @ t" by simp
      then show ?thesis by blast
    next
      case 2
      then obtain p t where "cs = p @ sub @ t" using Cons.IH by auto
      then have "c # cs = (c # p) @ sub @ t" by simp
      then show ?thesis by blast
    qed
  next
    assume "\<exists>p t. c # cs = p @ sub @ t"
    then obtain p t where pt: "c # cs = p @ sub @ t" by auto
    show "includes_str (c # cs) sub"
    proof (cases p)
      case Nil
      then have "starts_with (c # cs) sub" using pt by (auto simp: starts_with_iff)
      then show ?thesis by simp
    next
      case (Cons a p')
      then have "cs = p' @ sub @ t" using pt by simp
      then have "includes_str cs sub" using Cons.IH by blast
      then show ?thesis by simp
    qed
  qed
qed












section \<open>Properties of the Similarity Matcher\<close>

lemma round_div_round:
  assumes "0 < b"
  shows "round_div a b = nat (round (real a / real b))"
proof -
  have "real a / real b + 1 / 2 = real (2 * a + b) / real (2 * b)"
    using assms by (simp add: field_simps)
  then have "round (real a / real b) = \<lfloor>real (2 * a + b) / real (2 * b)\<rfloor>"
    by (simp add: round_def)
  also have "\<dots> = int ((2 * a + b) div (2 * b))"
    by (rule floor_divide_of_nat_eq)
  finally show ?thesis by (simp add: round_div_def)
qed

lemma similarity_score_round:
  assumes "finite P" "P \<noteq> {}"
  shows "similarity_score P E = nat (round (100 * real (card (P \<inter> E)) / real (card P)))"
proof -
  have "0 < card P" using assms by (simp add: card_gt_0_iff)
  then show ?thesis
    unfolding similarity_score_def by (simp add: round_div_round)
qed

lemma set_insert_ranked: "set (insert_ranked r xs) = insert r (set xs)"
  by (induction xs) auto

lemma set_foldr_insert_ranked: "set (foldr insert_ranked xs []) = set xs"
  by (induction xs) (simp_all add: set_insert_ranked)

lemma set_rank:
  "set (rank P schemas) =
     {r \<in> match_result P ` set schemas. similarity_percentage r \<noteq> 0}"
  by (auto simp: rank_def set_foldr_insert_ranked)

text \<open>
  Claim C1. For a finite, non-empty set of proposal fields the score of an existing
  schema is \<^verbatim>\<open>100 * |P \<inter> E| / |P|\<close> rounded to an integer, and every entry of the ranking
  carries that score for a schema of the input, with the number of matching fields and
  the number of proposal fields. The score is asymmetric: \<^verbatim>\<open>{a,b,c}\<close> against
  \<^verbatim>\<open>{a,b,c,d,e}\<close> scores 100, \<^verbatim>\<open>{a,b,c}\<close> against \<^verbatim>\<open>{a,b}\<close> scores 67.
\<close>

theorem rank_similarity_formula:
  "(finite P \<and> P \<noteq> {} \<longrightarrow>
      similarity_score P E = nat (round (100 * real (card (P \<inter> E)) / real (card P))))
   \<and> (\<forall>r \<in> set (rank P schemas).
        \<exists>E'. (existing_schema_name r, E') \<in> set schemas
           \<and> similarity_percentage r = similarity_score P E'
           \<and> similarity_percentage r \<noteq> 0
           \<and> matching_field_count r = card (P \<inter> E')
           \<and> total_proposal_field_count r = card P)
   \<and> similarity_score {''a'', ''b'', ''c''} {''a'', ''b'', ''c'', ''d'', ''e''} = 100
   \<and> similarity_score {''a'', ''b'', ''c''} {''a'', ''b''} = 67"
proof (intro conjI)
  show "finite P \<and> P \<noteq> {} \<longrightarrow>
      similarity_score P E = nat (round (100 * real (card (P \<inter> E)) / real (card P)))"
    using similarity_score_round by blast
  show "\<forall>r \<in> set (rank P schemas).
        \<exists>E'. (existing_schema_name r, E') \<in> set schemas
           \<and> similarity_percentage r = similarity_score P E'
           \<and> similarity_percentage r \<noteq> 0
           \<and> matching_field_count r = card (P \<inter> E')
           \<and> total_proposal_field_count r = card P"
  proof
    fix r
    assume "r \<in> set (rank P schemas)"
    then obtain n E' where s: "(n, E') \<in> set schemas" and r: "r = match_result P (n, E')"
      and nz: "similarity_percentage r \<noteq> 0"
      unfolding set_rank by auto
    from r have "existing_schema_name r = n" "similarity_percentage r = similarity_score P E'"
      "matching_field_count r = card (P \<inter> E')" "total_proposal_field_count r = card P"
      by (simp_all add: match_result_def)
    with s nz show "\<exists>E'. (existing_schema_name r, E') \<in> set schemas
           \<and> similarity_percentage r = similarity_score P E'
           \<and> similarity_percentage r \<noteq> 0
           \<and> matching_field_count r = card (P \<inter> E')
           \<and> total_proposal_field_count r = card P"
      by blast
  qed
  show "similarity_score {''a'', ''b'', ''c''} {''a'', ''b'', ''c'', ''d'', ''e''} = 100"
    by (simp add: similarity_score_def round_div_def)
  show "similarity_score {''a'', ''b'', ''c''} {''a'', ''b''} = 67"
    by (simp add: similarity_score_def round_div_def)
qed

theorem rank_similarity_formula_witness:
  "finite {''a'', ''b'', ''c''} \<and> {''a'', ''b'', ''c''} \<noteq> {}
   \<and> similarity_score {''a'', ''b'', ''c''} {''b'', ''c'', ''z''} =
       nat (round (100 * real (card ({''a'', ''b'', ''c''} \<inter> {''b'', ''c'', ''z''}))
          / real (card {''a'', ''b'', ''c''})))
   \<and> rank {''a'', ''b'', ''c''}
        [(''Lead'', {''a'', ''b''}), (''Item'', {''x''}),
         (''Customer'', {''a'', ''b'', ''c'', ''d'', ''e''}), (''Contact'', {''b'', ''c''})] =
      [\<lparr>existing_schema_name = ''Customer'', similarity_percentage = 100,
        matching_field_count = 3, total_proposal_field_count = 3\<rparr>,
       \<lparr>existing_schema_name = ''Contact'', similarity_percentage = 67,
        matching_field_count = 2, total_proposal_field_count = 3\<rparr>,
       \<lparr>existing_schema_name = ''Lead'', similarity_percentage = 67,
        matching_field_count = 2, total_proposal_field_count = 3\<rparr>]"
proof -
  have f: "finite {''a'', ''b'', ''c''} \<and> {''a'', ''b'', ''c''} \<noteq> {}" by simp
  from rank_similarity_formula[of "{''a'', ''b'', ''c''}" "{''b'', ''c'', ''z''}" "[]"] f
  have "similarity_score {''a'', ''b'', ''c''} {''b'', ''c'', ''z''} =
       nat (round (100 * real (card ({''a'', ''b'', ''c''} \<inter> {''b'', ''c'', ''z''}))
          / real (card {''a'', ''b'', ''c''})))"
    by blast
  moreover have "rank {''a'', ''b'', ''c''}
        [(''Lead'', {''a'', ''b''}), (''Item'', {''x''}),
         (''Customer'', {''a'', ''b'', ''c'', ''d'', ''e''}), (''Contact'', {''b'', ''c''})] =
      [\<lparr>existing_schema_name = ''Customer'', similarity_percentage = 100,
        matching_field_count = 3, total_proposal_field_count = 3\<rparr>,
       \<lparr>existing_schema_name = ''Contact'', similarity_percentage = 67,
        matching_field_count = 2, total_proposal_field_count = 3\<rparr>,
       \<lparr>existing_schema_name = ''Lead'', similarity_percentage = 67,
        matching_field_count = 2, total_proposal_field_count = 3\<rparr>]"
    by (simp add: rank_def match_result_def similarity_score_def round_div_def ranks_before_def)
  ultimately show ?thesis using f by blast
qed


section \<open>Properties of the clean names\<close>

lemma digit_char_inj:
  assumes "d < 10" "e < 10" "digit_char d = digit_char e"
  shows "d = e"
proof -
  have "distinct ''0123456789''" by simp
  moreover have "d < length ''0123456789''" "e < length ''0123456789''"
    using assms by simp_all
  ultimately show ?thesis
    using assms(3) unfolding digit_char_def by (simp only: nth_eq_iff_index_eq)
qed

lemma show_nat_nonempty: "show_nat n \<noteq> []"
  by (subst show_nat.simps) simp

lemma show_nat_inj: "show_nat m = show_nat n \<Longrightarrow> m = n"
proof (induction m arbitrary: n rule: show_nat.induct)
  case (1 m)
  show ?case
  proof (cases "m < 10")
    case m: True
    show ?thesis
    proof (cases "n < 10")
      case True
      with m "1.prems" have "digit_char m = digit_char n"
        by (simp add: show_nat.simps[of m] show_nat.simps[of n])
      with m True show ?thesis by (rule digit_char_inj)
    next
      case False
      with m "1.prems" have "show_nat (n div 10) = []"
        by (simp add: show_nat.simps[of m] show_nat.simps[of n])
      then show ?thesis by (simp add: show_nat_nonempty)
    qed
  next
    case m: False
    show ?thesis
    proof (cases "n < 10")
      case True
      with m "1.prems" have "show_nat (m div 10) = []"
        by (simp add: show_nat.simps[of m] show_nat.simps[of n])
      then show ?thesis by (simp add: show_nat_nonempty)
    next
      case False
      with m "1.prems" have eq: "show_nat (m div 10) = show_nat (n div 10)"
        and dg: "digit_char (m mod 10) = digit_char (n mod 10)"
        by (simp_all add: show_nat.simps[of m] show_nat.simps[of n])
      from "1.IH"[OF m eq] have "m div 10 = n div 10" .
      moreover have "m mod 10 = n mod 10"
        by (rule digit_char_inj[OF _ _ dg]) simp_all
      ultimately show ?thesis by (metis div_mult_mod_eq)
    qed
  qed
qed

lemma suffixed_inj: "inj (suffixed base)"
  by (rule injI) (simp add: suffixed_def show_nat_inj)

lemma fresh_name_fresh: "fresh_name used base \<notin> set used"
proof (cases "base \<in> set used")
  case False
  then show ?thesis by (simp add: fresh_name_def)
next
  case True
  let ?cands = "map (suffixed base) [2 ..< length used + 3]"
  have "find (\<lambda>c. c \<notin> set used) ?cands \<noteq> None"
  proof
    assume "find (\<lambda>c. c \<notin> set used) ?cands = None"
    then have sub: "set ?cands \<subseteq> set used"
      by (auto simp: find_None_iff)
    have "distinct ?cands"
      by (simp add: distinct_map inj_on_subset[OF suffixed_inj])
    then have "card (set ?cands) = length ?cands"
      by (rule distinct_card)
    also have "length ?cands = length used + 1"
      by simp
    finally have "card (set ?cands) = length used + 1" .
    moreover have "card (set ?cands) \<le> card (set used)"
      by (rule card_mono[OF _ sub]) simp
    moreover have "card (set used) \<le> length used"
      by (rule card_length)
    ultimately show False by simp
  qed
  then obtain c where c: "find (\<lambda>c. c \<notin> set used) ?cands = Some c" by auto
  then have "c \<notin> set used" by (auto simp: find_Some_iff)
  with True c show ?thesis by (simp add: fresh_name_def)
qed

lemma fresh_name_shape:
  "fresh_name used base = base \<or> (\<exists>k\<ge>2. fresh_name used base = suffixed base k)"
proof (cases "base \<in> set used")
  case False
  then show ?thesis by (simp add: fresh_name_def)
next
  case True
  show ?thesis
  proof (cases "find (\<lambda>c. c \<notin> set used) (map (suffixed base) [2 ..< length used + 3])")
    case None
    with True show ?thesis by (simp add: fresh_name_def)
  next
    case (Some c)
    then have "c \<in> set (map (suffixed base) [2 ..< length used + 3])"
      by (auto simp: find_Some_iff)
    then obtain k where "2 \<le> k" "c = suffixed base k" by auto
    with True Some show ?thesis by (auto simp: fresh_name_def)
  qed
qed

lemma assign_names_fresh:
  "distinct (assign_names used columns) \<and> set (assign_names used columns) \<inter> set used = {}"
proof (induction columns arbitrary: used)
  case Nil
  then show ?case by simp
next
  case (Cons column columns)
  let ?n = "fresh_name used (base_name column)"
  have n: "?n \<notin> set used" by (rule fresh_name_fresh)
  from Cons.IH[of "used @ [?n]"]
  have d: "distinct (assign_names (used @ [?n]) columns)"
    and i: "set (assign_names (used @ [?n]) columns) \<inter> set (used @ [?n]) = {}"
    by simp_all
  from i have "?n \<notin> set (assign_names (used @ [?n]) columns)"
    and "set (assign_names (used @ [?n]) columns) \<inter> set used = {}"
    by auto
  with n d show ?case by (auto simp: Let_def)
qed

lemma length_assign_names: "length (assign_names used columns) = length columns"
  by (induction columns arbitrary: used) (simp_all add: Let_def)

lemma assign_names_shape:
  "list_all2 (\<lambda>column n. n = base_name column \<or> (\<exists>k\<ge>2. n = suffixed (base_name column) k))
     columns (assign_names used columns)"
  by (induction columns arbitrary: used) (simp_all add: Let_def fresh_name_shape)

lemma not_alnum_underscore: "\<not> is_alnum (CHR ''_'')"
  by (simp add: is_alnum_def)

lemma replace_runs_chars: "c \<in> set (replace_runs s) \<Longrightarrow> is_alnum c \<or> c = CHR ''_''"
  by (induction s rule: replace_runs.induct) (auto split: if_splits)

lemma replace_runs_head:
  "replace_runs s = CHR ''_'' # r \<Longrightarrow> s \<noteq> [] \<and> \<not> is_alnum (hd s)"
  by (cases s) (auto simp: not_alnum_underscore split: if_splits)

lemma replace_runs_after_run:
  "replace_runs (dropWhile (\<lambda>d. \<not> is_alnum d) cs) \<noteq> CHR ''_'' # r"
proof
  assume "replace_runs (dropWhile (\<lambda>d. \<not> is_alnum d) cs) = CHR ''_'' # r"
  then have "dropWhile (\<lambda>d. \<not> is_alnum d) cs \<noteq> []"
    and "\<not> is_alnum (hd (dropWhile (\<lambda>d. \<not> is_alnum d) cs))"
    using replace_runs_head by blast+
  then show False using hd_dropWhile[of "\<lambda>d. \<not> is_alnum d" cs] by simp
qed

lemma replace_runs_single: "\<not> includes_str (replace_runs s) ''__''"
proof (induction s rule: replace_runs.induct)
  case 1
  then show ?case by simp
next
  case (2 c cs)
  show ?case
  proof (cases "is_alnum c")
    case True
    with 2 show ?thesis by (cases "replace_runs cs") (auto simp: not_alnum_underscore)
  next
    case False
    with 2 have ih: "\<not> includes_str (replace_runs (dropWhile (\<lambda>d. \<not> is_alnum d) cs)) ''__''"
      by simp
    show ?thesis
    proof (cases "replace_runs (dropWhile (\<lambda>d. \<not> is_alnum d) cs)")
      case Nil
      with False show ?thesis by simp
    next
      case (Cons a r)
      then have "a \<noteq> CHR ''_''" using replace_runs_after_run[of cs r] by auto
      with False ih Cons show ?thesis by simp
    qed
  qed
qed

lemma rev_dropWhile_rev:
  "rev (dropWhile P (rev xs)) @ rev (takeWhile P (rev xs)) = xs"
proof -
  have "rev (rev xs) = rev (takeWhile P (rev xs) @ dropWhile P (rev xs))"
    by (simp only: takeWhile_dropWhile_id)
  then show ?thesis
    by (simp only: rev_rev_ident rev_append)
qed

lemma strip_underscores_split:
  "takeWhile (\<lambda>c. c = CHR ''_'') s @ strip_underscores s @
     rev (takeWhile (\<lambda>c. c = CHR ''_'') (rev (dropWhile (\<lambda>c. c = CHR ''_'') s))) = s"
  by (simp add: strip_underscores_def rev_dropWhile_rev)

lemma strip_underscores_infix:
  "\<exists>p t. s = p @ strip_underscores s @ t"
proof -
  from strip_underscores_split[of s, symmetric] show ?thesis by blast
qed

lemma strip_underscores_single:
  assumes "\<not> includes_str s ''__''"
  shows "\<not> includes_str (strip_underscores s) ''__''"
proof
  assume "includes_str (strip_underscores s) ''__''"
  then obtain p t where pt: "strip_underscores s = p @ ''__'' @ t"
    unfolding includes_str_iff by blast
  obtain p' t' where "s = p' @ strip_underscores s @ t'"
    using strip_underscores_infix by blast
  then have "s = (p' @ p) @ ''__'' @ (t @ t')"
    unfolding pt by simp
  then have "includes_str s ''__''" unfolding includes_str_iff by blast
  with assms show False by simp
qed

lemma strip_underscores_ends:
  assumes "strip_underscores s \<noteq> []"
  shows "hd (strip_underscores s) \<noteq> CHR ''_'' \<and> last (strip_underscores s) \<noteq> CHR ''_''"
proof -
  let ?P = "\<lambda>c. c = CHR ''_''"
  let ?m = "dropWhile ?P s"
  let ?u = "rev (takeWhile ?P (rev ?m))"
  have ne: "dropWhile ?P (rev ?m) \<noteq> []"
    using assms by (simp add: strip_underscores_def)
  then have "\<not> ?P (hd (dropWhile ?P (rev ?m)))" by (rule hd_dropWhile)
  then have l: "last (strip_underscores s) \<noteq> CHR ''_''"
    using ne by (simp add: strip_underscores_def last_rev)
  have m: "strip_underscores s @ ?u = ?m"
    unfolding strip_underscores_def by (rule rev_dropWhile_rev)
  have "hd (strip_underscores s @ ?u) = hd (strip_underscores s)"
    using assms by (rule hd_append2)
  then have h: "hd ?m = hd (strip_underscores s)"
    by (simp only: m)
  have "?m \<noteq> []"
  proof
    assume e: "?m = []"
    have "strip_underscores s = []"
      unfolding strip_underscores_def e by simp
    with assms show False by simp
  qed
  then have "\<not> ?P (hd ?m)" by (rule hd_dropWhile)
  then have "hd (strip_underscores s) \<noteq> CHR ''_''"
    unfolding h .
  with l show ?thesis by simp
qed

lemma strip_underscores_chars: "set (strip_underscores s) \<subseteq> set s"
proof -
  obtain p t where "s = p @ strip_underscores s @ t"
    using strip_underscores_infix by blast
  then have "set s = set (p @ strip_underscores s @ t)"
    by (rule arg_cong)
  then show ?thesis by (simp only: set_append) blast
qed

lemma base_name_nonempty: "base_name column \<noteq> []"
  by (simp add: base_name_def Let_def)

lemma base_name_chars: "list_all (\<lambda>c. is_alnum c \<or> c = CHR ''_'') (base_name column)"
proof (cases "strip_underscores (replace_runs (toLowerCase column)) = []")
  case True
  then show ?thesis by (simp add: base_name_def is_alnum_def)
next
  case False
  then show ?thesis
    using strip_underscores_chars[of "replace_runs (toLowerCase column)"] replace_runs_chars
    by (auto simp: base_name_def list_all_iff)
qed

lemma base_name_ends:
  "hd (base_name column) \<noteq> CHR ''_'' \<and> last (base_name column) \<noteq> CHR ''_''"
proof (cases "strip_underscores (replace_runs (toLowerCase column)) = []")
  case True
  then show ?thesis by (simp add: base_name_def)
next
  case False
  then show ?thesis
    using strip_underscores_ends[OF False] by (simp add: base_name_def)
qed

lemma base_name_single: "\<not> includes_str (base_name column) ''__''"
proof (cases "strip_underscores (replace_runs (toLowerCase column)) = []")
  case True
  then show ?thesis by (simp add: base_name_def)
next
  case False
  then show ?thesis
    using strip_underscores_single[OF replace_runs_single, of "toLowerCase column"]
    by (simp add: base_name_def)
qed

text \<open>
  Claim C5. The clean names of one analysis are pairwise distinct, one per column. Each
  is the base name of its column or that base name with a suffix \<^verbatim>\<open>_k\<close>, \<open>k \<ge> 2\<close>;
  a base name is never empty, consists of lowercase letters, digits and underscores,
  neither starts nor ends with an underscore and has no two underscores in a row. The
  columns \<^verbatim>\<open>User Name\<close> and \<^verbatim>\<open>user-name\<close> get \<^verbatim>\<open>user_name\<close> and \<^verbatim>\<open>user_name_2\<close>; a
  name of punctuation only becomes \<^verbatim>\<open>field\<close>.
\<close>

theorem clean_names_distinct:
  "distinct (clean_names columns)
   \<and> length (clean_names columns) = length columns
   \<and> list_all2 (\<lambda>column n. n = base_name column \<or> (\<exists>k\<ge>2. n = suffixed (base_name column) k))
        columns (clean_names columns)
   \<and> base_name column \<noteq> []
   \<and> list_all (\<lambda>c. is_alnum c \<or> c = CHR ''_'') (base_name column)
   \<and> hd (base_name column) \<noteq> CHR ''_'' \<and> last (base_name column) \<noteq> CHR ''_''
   \<and> \<not> includes_str (base_name column) ''__''
   \<and> clean_names [''User Name'', ''user-name''] = [''user_name'', ''user_name_2'']
   \<and> base_name '' Total $ Amount (USD) '' = ''total_amount_usd''
   \<and> base_name ''!!'' = ''field''"
proof (intro conjI)
  show "distinct (clean_names columns)"
    unfolding clean_names_def using assign_names_fresh by blast
  show "length (clean_names columns) = length columns"
    unfolding clean_names_def by (rule length_assign_names)
  show "list_all2 (\<lambda>column n. n = base_name column \<or> (\<exists>k\<ge>2. n = suffixed (base_name column) k))
        columns (clean_names columns)"
    unfolding clean_names_def by (rule assign_names_shape)
  show "base_name column \<noteq> []" by (rule base_name_nonempty)
  show "list_all (\<lambda>c. is_alnum c \<or> c = CHR ''_'') (base_name column)" by (rule base_name_chars)
  show "hd (base_name column) \<noteq> CHR ''_''" using base_name_ends by blast
  show "last (base_name column) \<noteq> CHR ''_''" using base_name_ends by blast
  show "\<not> includes_str (base_name column) ''__''" by (rule base_name_single)
  show "clean_names [''User Name'', ''user-name''] = [''user_name'', ''user_name_2'']"
    by (simp add: clean_names_def Let_def fresh_name_def base_name_def strip_underscores_def
        toLowerCase_def lower_char_def is_alnum_def suffixed_def show_nat.simps digit_char_def)
  show "base_name '' Total $ Amount (USD) '' = ''total_amount_usd''"
    by (simp add: base_name_def strip_underscores_def toLowerCase_def lower_char_def is_alnum_def)
  show "base_name ''!!'' = ''field''"
    by (simp add: base_name_def strip_underscores_def toLowerCase_def lower_char_def is_alnum_def)
qed

theorem clean_names_distinct_witness:
  "distinct (clean_names [''a'', ''A'', ''a_2'', ''a '', ''!!'', ''field''])
   \<and> clean_names [''a'', ''A'', ''a_2'', ''a '', ''!!'', ''field''] =
       [''a'', ''a_2'', ''a_2_2'', ''a_3'', ''field'', ''field_2'']"
proof -
  have "clean_names [''a'', ''A'', ''a_2'', ''a '', ''!!'', ''field''] =
       [''a'', ''a_2'', ''a_2_2'', ''a_3'', ''field'', ''field_2'']"
    by (simp add: clean_names_def Let_def fresh_name_def base_name_def strip_underscores_def
        toLowerCase_def lower_char_def is_alnum_def suffixed_def show_nat.simps digit_char_def)
  with clean_names_distinct[of "[''a'', ''A'', ''a_2'', ''a '', ''!!'', ''field'']"]
  show ?thesis by blast
qed

end
